theory Spec2Isabelle
  imports Main "HOL-Library.Word"
begin

section \<open>Text\<close>

text \<open>
  A JavaScript string is a sequence of UTF-16 code units; \<open>length\<close>, indexing and
  \<open>===\<close> all work on code units. A string is therefore a list of 16-bit words.
  \<open>js\<close> writes an ASCII literal of the source as such a list; the backslash has a
  name of its own.
\<close>

type_synonym jschar = "16 word"
type_synonym jstring = "jschar list"

definition js :: "string \<Rightarrow> jstring" where
  "js s = map of_char s"

definition backslash :: jstring where
  "backslash = [0x5C]"

section \<open>ast.ts\<close>

text \<open>
  \<open>Node\<close> with its three shapes \<open>Variable\<close>, \<open>Abstraction\<close> and \<open>Application\<close>;
  the constructors are the helper functions \<open>variable\<close>, \<open>abstraction\<close>, \<open>application\<close>.
\<close>

datatype node =
    Variable jstring
  | Abstraction jstring node
  | Application node node

section \<open>Errors\<close>

text \<open>
  Every failure of the source is a thrown \<open>Error\<close> whose message is built from a fixed
  text and some values. The model keeps the values and names the text:
  \<^item> \<open>LexError c p\<close>: "Unexpected character: c at position p";
  \<^item> \<open>ParseError m p\<close>: "m at position p", where the message \<open>m\<close> is one of the
    parser's four texts;
  \<^item> \<open>NonTermination n\<close>: "Evaluation exceeded maximum steps (n). Possible
    non-terminating expression.";
  \<^item> \<open>TypeError\<close>: the runtime's error on reading a property of \<open>undefined\<close>.
\<close>

datatype tokenType = TokLambda | TokVariable | TokDot | TokLParen | TokRParen | TokEOF

datatype parse_message =
    ExpectedParameterName
  | ExpectedDot
  | ExpectedRParen
  | UnexpectedToken tokenType

datatype error =
    LexError jstring nat
  | ParseError parse_message nat
  | NonTermination int
  | TypeError

section \<open>lexer.ts\<close>

text \<open>
  A \<open>Token\<close> has the fields \<open>type\<close>, \<open>value\<close> (optional) and \<open>position\<close>; the record
  prefixes them with \<open>tok_\<close>. The token types are those of the enum \<open>TokenType\<close>, in its
  order, prefixed with \<open>Tok\<close>.

  The lexer's state is the private field \<open>position\<close>; \<open>input\<close> is set once by the
  constructor (to the trimmed text) and never changes. Each method takes \<open>input\<close> and the
  \<open>position\<close> it starts at, and returns the new \<open>position\<close> with its result. A
  character of the source is a string of one code unit, and \<open>''\<close> is the empty list.
\<close>

record token =
  tok_type :: tokenType
  tok_value :: "jstring option"
  tok_position :: nat

text \<open>
  \<open>String.prototype.trim\<close> is a built-in of the language: it removes the white space and
  line terminators of ECMAScript from both ends.
\<close>

definition isWhiteSpace :: "jschar \<Rightarrow> bool" where
  "isWhiteSpace c \<longleftrightarrow>
     c \<in> {0x09, 0x0A, 0x0B, 0x0C, 0x0D, 0x20, 0xA0, 0x1680, 0x2028, 0x2029, 0x202F, 0x205F,
          0x3000, 0xFEFF} \<or> (0x2000 \<le> c \<and> c \<le> 0x200A)"

definition trim :: "jstring \<Rightarrow> jstring" where
  "trim s = rev (dropWhile isWhiteSpace (rev (dropWhile isWhiteSpace s)))"

definition lexer_isAtEnd :: "jstring \<Rightarrow> nat \<Rightarrow> bool" where
  "lexer_isAtEnd input position \<longleftrightarrow> position \<ge> length input"

definition lexer_peek :: "jstring \<Rightarrow> nat \<Rightarrow> jstring" where
  "lexer_peek input position =
     (if lexer_isAtEnd input position then [] else [input ! position])"

definition lexer_advance :: "jstring \<Rightarrow> nat \<Rightarrow> jstring \<times> nat" where
  "lexer_advance input position =
     (if lexer_isAtEnd input position then ([], position)
      else ([input ! position], position + 1))"

text \<open>
  \<open>/[a-zA-Z]/.test(c)\<close> and \<open>/[0-9]/.test(c)\<close> hold when some code unit of \<open>c\<close> is in
  the class.
\<close>

definition isAlpha :: "jstring \<Rightarrow> bool" where
  "isAlpha c \<longleftrightarrow> (\<exists>u \<in> set c. (0x61 \<le> u \<and> u \<le> 0x7A) \<or> (0x41 \<le> u \<and> u \<le> 0x5A))"

definition isAlphaNumeric :: "jstring \<Rightarrow> bool" where
  "isAlphaNumeric c \<longleftrightarrow> isAlpha c \<or> (\<exists>u \<in> set c. 0x30 \<le> u \<and> u \<le> 0x39)"

lemma isAlphaNumeric_peek: "isAlphaNumeric (lexer_peek input position) \<Longrightarrow> position < length input"
  by (auto simp: isAlphaNumeric_def isAlpha_def lexer_peek_def lexer_isAtEnd_def split: if_splits)

function readVariable_loop :: "jstring \<Rightarrow> nat \<Rightarrow> nat" where
  "readVariable_loop input position =
     (if isAlphaNumeric (lexer_peek input position)
      then readVariable_loop input (snd (lexer_advance input position))
      else position)"
  by pat_completeness auto
termination readVariable_loop
  by (relation "measure (\<lambda>(input, position). length input - position)")
     (auto dest!: isAlphaNumeric_peek simp: lexer_advance_def lexer_isAtEnd_def)

declare readVariable_loop.simps [simp del]

text \<open>\<open>String.prototype.substring\<close>: the code units from the smaller index up to the larger.\<close>

definition substring :: "jstring \<Rightarrow> nat \<Rightarrow> nat \<Rightarrow> jstring" where
  "substring s start end = take (max start end - min start end) (drop (min start end) s)"

definition readVariable :: "jstring \<Rightarrow> nat \<Rightarrow> jstring \<times> nat" where
  "readVariable input position =
     (let start = position;
          position = readVariable_loop input position
      in (substring input start position, position))"

function skipWhitespace :: "jstring \<Rightarrow> nat \<Rightarrow> nat" where
  "skipWhitespace input position =
     (if \<not> lexer_isAtEnd input position then
        (let c = lexer_peek input position in
         if c = js '' '' \<or> c = [0x09] \<or> c = [0x0D] \<or> c = [0x0A]
         then skipWhitespace input (snd (lexer_advance input position))
         else position)
      else position)"
  by pat_completeness auto
termination skipWhitespace
  by (relation "measure (\<lambda>(input, position). length input - position)")
     (auto simp: lexer_advance_def lexer_isAtEnd_def)

declare skipWhitespace.simps [simp del]

text \<open>
  \<open>nextToken\<close>: the second label of the source's first \<open>case\<close> is a string of the two
  code units U+00CE and U+00BB.
\<close>

definition nextToken :: "jstring \<Rightarrow> nat \<Rightarrow> error + (token \<times> nat)" where
  "nextToken input position0 =
     (let position = skipWhitespace input position0 in
      if lexer_isAtEnd input position
      then Inr (\<lparr>tok_type = TokEOF, tok_value = None, tok_position = position\<rparr>, position)
      else
        (let currentPosition = position;
             (c, position) = lexer_advance input position
         in if c = [0x5C] \<or> c = [0xCE, 0xBB]
            then Inr (\<lparr>tok_type = TokLambda, tok_value = None, tok_position = currentPosition\<rparr>, position)
            else if c = js ''.''
            then Inr (\<lparr>tok_type = TokDot, tok_value = None, tok_position = currentPosition\<rparr>, position)
            else if c = js ''(''
            then Inr (\<lparr>tok_type = TokLParen, tok_value = None, tok_position = currentPosition\<rparr>, position)
            else if c = js '')''
            then Inr (\<lparr>tok_type = TokRParen, tok_value = None, tok_position = currentPosition\<rparr>, position)
            else if isAlpha c
            then (let position = currentPosition;
                      (variable, position) = readVariable input position
                  in Inr (\<lparr>tok_type = TokVariable, tok_value = Some variable, tok_position = currentPosition\<rparr>,
                          position))
            else Inl (LexError c currentPosition)))"

text \<open>
  \<open>tokenize\<close> loops until \<open>nextToken\<close> returns the end-of-input token. Every other token
  moves \<open>position\<close> forward, which is why the loop ends.
\<close>

lemma skipWhitespace_ge: "position \<le> skipWhitespace input position"
  by (induction input position rule: skipWhitespace.induct)
     (subst skipWhitespace.simps, auto simp: lexer_advance_def Let_def split: if_splits)

lemma readVariable_loop_ge: "position \<le> readVariable_loop input position"
  by (induction input position rule: readVariable_loop.induct)
     (subst readVariable_loop.simps, auto simp: lexer_advance_def split: if_splits)

lemma readVariable_loop_gt:
  "isAlpha (lexer_peek input position) \<Longrightarrow> position < readVariable_loop input position"
proof -
  assume a: "isAlpha (lexer_peek input position)"
  then have an: "isAlphaNumeric (lexer_peek input position)" by (simp add: isAlphaNumeric_def)
  then have lt: "position < length input" by (rule isAlphaNumeric_peek)
  have "readVariable_loop input position = readVariable_loop input (Suc position)"
    using an lt by (subst readVariable_loop.simps) (simp add: lexer_advance_def lexer_isAtEnd_def)
  then show ?thesis using readVariable_loop_ge[of "Suc position" input] by simp
qed

lemma nextToken_progress:
  "nextToken input position0 = Inr (tok, position1) \<Longrightarrow> tok_type tok \<noteq> TokEOF \<Longrightarrow>
   position0 < position1 \<and> position0 < length input"
  using skipWhitespace_ge[of position0 input]
        readVariable_loop_gt[of input "skipWhitespace input position0"]
  by (auto simp: nextToken_def Let_def lexer_advance_def lexer_isAtEnd_def lexer_peek_def
        readVariable_def split: if_splits prod.splits)

function tokenize_loop :: "jstring \<Rightarrow> nat \<Rightarrow> token list \<Rightarrow> error + token list" where
  "tokenize_loop input position tokens =
     (case nextToken input position of
        Inl e \<Rightarrow> Inl e
      | Inr (token, position') \<Rightarrow>
          (let tokens = tokens @ [token] in
           if tok_type token = TokEOF then Inr tokens
           else tokenize_loop input position' tokens))"
  by pat_completeness auto
termination tokenize_loop
  by (relation "measure (\<lambda>(input, position, tokens). length input - position)")
     (auto dest: nextToken_progress)

declare tokenize_loop.simps [simp del]

definition tokenize :: "jstring \<Rightarrow> error + token list" where
  "tokenize input = tokenize_loop input 0 []"

section \<open>parser.ts\<close>

text \<open>
  The parser's state is the private field \<open>current\<close>, an index into \<open>tokens\<close>, which the
  constructor sets and nothing changes. Each method takes \<open>tokens\<close> and the \<open>current\<close> it
  starts at, and returns the new \<open>current\<close> with its result. Reading \<open>tokens\<close> outside its
  range gives \<open>undefined\<close> (\<open>None\<close>), and reading a field of \<open>undefined\<close> throws
  (\<open>TypeError\<close>). \<open>nonNull\<close> is the non-null assertion \<open>value!\<close>, which checks
  nothing when the program runs.
\<close>

definition nonNull :: "'a option \<Rightarrow> 'a" where
  "nonNull v = the v"

definition parser_peek :: "token list \<Rightarrow> nat \<Rightarrow> token option" where
  "parser_peek tokens current = (if current < length tokens then Some (tokens ! current) else None)"

definition parser_previous :: "token list \<Rightarrow> nat \<Rightarrow> token option" where
  "parser_previous tokens current =
     (if 1 \<le> current \<and> current - 1 < length tokens then Some (tokens ! (current - 1)) else None)"

definition parser_isAtEnd :: "token list \<Rightarrow> nat \<Rightarrow> error + bool" where
  "parser_isAtEnd tokens current =
     (case parser_peek tokens current of
        None \<Rightarrow> Inl TypeError
      | Some t \<Rightarrow> Inr (tok_type t = TokEOF))"

definition parser_advance :: "token list \<Rightarrow> nat \<Rightarrow> error + (token option \<times> nat)" where
  "parser_advance tokens current =
     (case parser_isAtEnd tokens current of
        Inl e \<Rightarrow> Inl e
      | Inr atEnd \<Rightarrow>
          (let current = (if \<not> atEnd then current + 1 else current)
           in Inr (parser_previous tokens current, current)))"

definition check :: "tokenType \<Rightarrow> token list \<Rightarrow> nat \<Rightarrow> error + bool" where
  "check ty tokens current =
     (case parser_isAtEnd tokens current of
        Inl e \<Rightarrow> Inl e
      | Inr atEnd \<Rightarrow>
          if atEnd then Inr False
          else (case parser_peek tokens current of
                  None \<Rightarrow> Inl TypeError
                | Some t \<Rightarrow> Inr (tok_type t = ty)))"

fun match :: "tokenType list \<Rightarrow> token list \<Rightarrow> nat \<Rightarrow> error + (bool \<times> nat)" where
  "match [] tokens current = Inr (False, current)"
| "match (ty # types) tokens current =
     (case check ty tokens current of
        Inl e \<Rightarrow> Inl e
      | Inr c \<Rightarrow>
          if c then (case parser_advance tokens current of
                       Inl e \<Rightarrow> Inl e
                     | Inr (_, current) \<Rightarrow> Inr (True, current))
          else match types tokens current)"

definition consume ::
  "tokenType \<Rightarrow> parse_message \<Rightarrow> token list \<Rightarrow> nat \<Rightarrow> error + (token option \<times> nat)" where
  "consume ty message tokens current =
     (case check ty tokens current of
        Inl e \<Rightarrow> Inl e
      | Inr c \<Rightarrow>
          if c then parser_advance tokens current
          else (case parser_peek tokens current of
                  None \<Rightarrow> Inl TypeError
                | Some token \<Rightarrow> Inl (ParseError message (tok_position token))))"

text \<open>Where the helpers move \<open>current\<close>.\<close>

lemma check_True: "check ty tokens current = Inr True \<Longrightarrow> current < length tokens \<and> parser_isAtEnd tokens current = Inr False"
  by (auto simp: check_def parser_isAtEnd_def parser_peek_def split: sum.splits option.splits if_splits)

lemma advance_not_at_end:
  "parser_isAtEnd tokens current = Inr False \<Longrightarrow>
   parser_advance tokens current = Inr (Some (tokens ! current), Suc current)"
  by (auto simp: parser_advance_def parser_isAtEnd_def parser_peek_def parser_previous_def
      split: option.splits if_splits)

lemma match_result:
  "match types tokens current = Inr (m, current') \<Longrightarrow>
   (if m then current' = Suc current \<and> current < length tokens else current' = current)"
proof (induction types)
  case Nil
  then show ?case by auto
next
  case (Cons ty types)
  show ?case
  proof (cases "check ty tokens current")
    case (Inl e)
    then show ?thesis using Cons.prems by simp
  next
    case (Inr c)
    show ?thesis
    proof (cases c)
      case True
      then have "check ty tokens current = Inr True" using Inr by simp
      from check_True[OF this] advance_not_at_end[of tokens current] show ?thesis
        using Cons.prems Inr True by auto
    next
      case False
      then show ?thesis using Cons Inr by simp
    qed
  qed
qed

lemma match_True:
  "match types tokens current = Inr (True, current') \<Longrightarrow>
   current' = Suc current \<and> current < length tokens"
  using match_result[of types tokens current True current'] by simp

lemma match_False:
  "match types tokens current = Inr (False, current') \<Longrightarrow> current' = current"
  using match_result[of types tokens current False current'] by simp

declare match.simps [simp del]

lemma consume_result:
  "consume ty message tokens current = Inr (t, current') \<Longrightarrow>
   current' = Suc current \<and> current < length tokens \<and> t = Some (tokens ! current) \<and>
   tok_type (tokens ! current) = ty"
proof -
  assume a: "consume ty message tokens current = Inr (t, current')"
  then have c: "check ty tokens current = Inr True"
    by (auto simp: consume_def split: sum.splits if_splits option.splits)
  from check_True[OF c] advance_not_at_end[of tokens current] a c
  have "current' = Suc current \<and> current < length tokens \<and> t = Some (tokens ! current)"
    by (auto simp: consume_def)
  moreover have "tok_type (tokens ! current) = ty"
    using c by (auto simp: check_def parser_isAtEnd_def parser_peek_def split: sum.splits option.splits if_splits)
  ultimately show ?thesis by simp
qed

text \<open>
  The three grammar methods call each other; \<open>application_loop\<close> is the \<open>while\<close> loop of
  \<open>application\<close>, with \<open>expr\<close> as the tree built so far.
\<close>

function atom :: "token list \<Rightarrow> nat \<Rightarrow> error + (node \<times> nat)"
  and expression :: "token list \<Rightarrow> nat \<Rightarrow> error + (node \<times> nat)"
  and application :: "token list \<Rightarrow> nat \<Rightarrow> error + (node \<times> nat)"
  and application_loop :: "token list \<Rightarrow> node \<Rightarrow> nat \<Rightarrow> error + (node \<times> nat)"
where
  "atom tokens current =
     (case match [TokLambda] tokens current of
        Inl e \<Rightarrow> Inl e
      | Inr (isLambda, current1) \<Rightarrow>
          if isLambda then
            (case consume TokVariable ExpectedParameterName tokens current1 of
               Inl e \<Rightarrow> Inl e
             | Inr (param, current2) \<Rightarrow>
                 (case consume TokDot ExpectedDot tokens current2 of
                    Inl e \<Rightarrow> Inl e
                  | Inr (dot, current3) \<Rightarrow>
                      (case expression tokens current3 of
                         Inl e \<Rightarrow> Inl e
                       | Inr (body, current4) \<Rightarrow>
                           (case param of
                              None \<Rightarrow> Inl TypeError
                            | Some p \<Rightarrow> Inr (Abstraction (nonNull (tok_value p)) body, current4)))))
          else
            (case match [TokVariable] tokens current1 of
               Inl e \<Rightarrow> Inl e
             | Inr (isVariable, current2) \<Rightarrow>
                 if isVariable then
                   (case parser_previous tokens current2 of
                      None \<Rightarrow> Inl TypeError
                    | Some t \<Rightarrow> Inr (Variable (nonNull (tok_value t)), current2))
                 else
                   (case match [TokLParen] tokens current2 of
                      Inl e \<Rightarrow> Inl e
                    | Inr (isLParen, current3) \<Rightarrow>
                        if isLParen then
                          (case expression tokens current3 of
                             Inl e \<Rightarrow> Inl e
                           | Inr (expr, current4) \<Rightarrow>
                               (case consume TokRParen ExpectedRParen tokens current4 of
                                  Inl e \<Rightarrow> Inl e
                                | Inr (rparen, current5) \<Rightarrow> Inr (expr, current5)))
                        else
                          (case parser_peek tokens current3 of
                             None \<Rightarrow> Inl TypeError
                           | Some t \<Rightarrow>
                               Inl (ParseError (UnexpectedToken (tok_type t)) (tok_position t))))))"
| "expression tokens current = application tokens current"
| "application tokens current =
     (case atom tokens current of
        Inl e \<Rightarrow> Inl e
      | Inr (expr, current1) \<Rightarrow> application_loop tokens expr current1)"
| "application_loop tokens expr current =
     (case parser_isAtEnd tokens current of
        Inl e \<Rightarrow> Inl e
      | Inr atEnd \<Rightarrow>
          if atEnd then Inr (expr, current)
          else
            (case check TokRParen tokens current of
               Inl e \<Rightarrow> Inl e
             | Inr isRParen \<Rightarrow>
                 if isRParen then Inr (expr, current)
                 else
                   (case check TokDot tokens current of
                      Inl e \<Rightarrow> Inl e
                    | Inr isDot \<Rightarrow>
                        if isDot then Inr (expr, current)
                        else
                          (case atom tokens current of
                             Inl e \<Rightarrow> Inl e
                           | Inr (right, current1) \<Rightarrow>
                               application_loop tokens (Application expr right) current1))))"
  by pat_completeness auto

text \<open>
  Termination: \<open>atom\<close> returns a tree only after it has moved \<open>current\<close> forward, so
  each round of the loop and each nested \<open>expression\<close> starts further right.
\<close>

lemma isAtEnd_False: "parser_isAtEnd tokens current = Inr False \<Longrightarrow> current < length tokens"
  by (auto simp: parser_isAtEnd_def parser_peek_def split: option.splits if_splits)

lemma atom_dom_cases:
  assumes "atom_expression_application_application_loop_dom (Inl (Inl (tokens, current)))"
      and "atom tokens current = Inr (n, c')"
  shows "(\<exists>c1 p c2 d c3 body.
            match [TokLambda] tokens current = Inr (True, c1) \<and>
            consume TokVariable ExpectedParameterName tokens c1 = Inr (p, c2) \<and>
            consume TokDot ExpectedDot tokens c2 = Inr (d, c3) \<and>
            expression tokens c3 = Inr (body, c')) \<or>
         (\<exists>c1. match [TokLambda] tokens current = Inr (False, c1) \<and>
            match [TokVariable] tokens c1 = Inr (True, c')) \<or>
         (\<exists>c1 c2 c3 expr c4 r.
            match [TokLambda] tokens current = Inr (False, c1) \<and>
            match [TokVariable] tokens c1 = Inr (False, c2) \<and>
            match [TokLParen] tokens c2 = Inr (True, c3) \<and>
            expression tokens c3 = Inr (expr, c4) \<and>
            consume TokRParen ExpectedRParen tokens c4 = Inr (r, c'))"
  using assms(2) unfolding atom.psimps[OF assms(1)]
  by (simp split: sum.splits prod.splits if_splits option.splits)

lemma parser_progress:
  "atom_expression_application_application_loop_dom (Inl (Inl (tokens, current))) \<Longrightarrow>
     atom tokens current = Inr (n, c') \<Longrightarrow> current < c'"
  "atom_expression_application_application_loop_dom (Inl (Inr (tokens, current))) \<Longrightarrow>
     expression tokens current = Inr (n, c') \<Longrightarrow> current < c'"
  "atom_expression_application_application_loop_dom (Inr (Inl (tokens, current))) \<Longrightarrow>
     application tokens current = Inr (n, c') \<Longrightarrow> current < c'"
  "atom_expression_application_application_loop_dom (Inr (Inr (tokens, expr, current))) \<Longrightarrow>
     application_loop tokens expr current = Inr (n, c') \<Longrightarrow> current \<le> c'"
proof (induction tokens current and tokens current and tokens current and tokens expr current
       arbitrary: n c' and n c' and n c' and n c'
       rule: atom_expression_application_application_loop.pinduct)
  case (1 tokens current)
  from atom_dom_cases[OF "1.hyps" "1.prems"] show ?case
  proof (elim disjE exE conjE)
    fix c1 p c2 d c3 body
    assume a: "match [TokLambda] tokens current = Inr (True, c1)"
      "consume TokVariable ExpectedParameterName tokens c1 = Inr (p, c2)"
      "consume TokDot ExpectedDot tokens c2 = Inr (d, c3)"
      "expression tokens c3 = Inr (body, c')"
    have "c3 < c'" using "1.IH"(1)[OF a(1) refl _ a(2) refl a(3) refl a(4)] by simp
    moreover have "current < c3"
      using match_True[OF a(1)] consume_result[OF a(2)] consume_result[OF a(3)] by simp
    ultimately show ?thesis by simp
  next
    fix c1
    assume a: "match [TokLambda] tokens current = Inr (False, c1)"
      "match [TokVariable] tokens c1 = Inr (True, c')"
    show ?thesis using match_False[OF a(1)] match_True[OF a(2)] by simp
  next
    fix c1 c2 c3 expr c4 r
    assume a: "match [TokLambda] tokens current = Inr (False, c1)"
      "match [TokVariable] tokens c1 = Inr (False, c2)"
      "match [TokLParen] tokens c2 = Inr (True, c3)"
      "expression tokens c3 = Inr (expr, c4)"
      "consume TokRParen ExpectedRParen tokens c4 = Inr (r, c')"
    have "c3 < c4" using "1.IH"(2)[OF a(1) refl _ a(2) refl _ a(3) refl _ a(4)] by simp
    then show ?thesis
      using match_False[OF a(1)] match_False[OF a(2)] match_True[OF a(3)] consume_result[OF a(5)]
      by simp
  qed
next
  case (2 tokens current)
  then show ?case by (simp add: expression.psimps)
next
  case (3 tokens current)
  from "3.prems" obtain expr c1 where a: "atom tokens current = Inr (expr, c1)"
    "application_loop tokens expr c1 = Inr (n, c')"
    unfolding application.psimps[OF "3.hyps"] by (auto split: sum.splits prod.splits)
  from "3.IH"(1)[OF a(1)] "3.IH"(2)[OF a(1) refl a(2)] show ?case by simp
next
  case (4 tokens expr current)
  from "4.prems" have
    "c' = current \<or> (\<exists>right c1. parser_isAtEnd tokens current = Inr False \<and>
       check TokRParen tokens current = Inr False \<and> check TokDot tokens current = Inr False \<and>
       atom tokens current = Inr (right, c1) \<and>
       application_loop tokens (Application expr right) c1 = Inr (n, c'))"
    unfolding application_loop.psimps[OF "4.hyps"]
    by (simp split: sum.splits prod.splits if_splits)
  then show ?case
  proof (elim disjE exE conjE)
    fix right c1
    assume a: "parser_isAtEnd tokens current = Inr False"
       "check TokRParen tokens current = Inr False" "check TokDot tokens current = Inr False"
       "atom tokens current = Inr (right, c1)"
       "application_loop tokens (Application expr right) c1 = Inr (n, c')"
    from "4.IH"(1)[OF a(1) _ a(2) _ a(3) _ a(4)] "4.IH"(2)[OF a(1) _ a(2) _ a(3) _ a(4) refl a(5)]
    show ?thesis by simp
  qed simp
qed

termination atom
proof (relation "measure (\<lambda>x. case x of
            Inl (Inl (tokens, current)) \<Rightarrow> 4 * (length tokens - current)
          | Inl (Inr (tokens, current)) \<Rightarrow> 4 * (length tokens - current) + 3
          | Inr (Inl (tokens, current)) \<Rightarrow> 4 * (length tokens - current) + 2
          | Inr (Inr (tokens, expr, current)) \<Rightarrow> 4 * (length tokens - current) + 1)",
       goal_cases)
  case 1
  then show ?case by simp
next
  case (2 tokens current b x y ba xa ya bb xb yb)
  then show ?case
    using match_True[of "[TokLambda]" tokens current y] consume_result[of _ _ tokens y xa ya]
      consume_result[of _ _ tokens ya xb yb] by auto
next
  case (3 tokens current b x y ba xa ya bb xb yb)
  then show ?case
    using match_False[of "[TokLambda]" tokens current y] match_False[of "[TokVariable]" tokens y ya]
      match_True[of "[TokLParen]" tokens ya yb] by auto
next
  case 4
  then show ?case by simp
next
  case 5
  then show ?case by simp
next
  case (6 tokens current b x y)
  then show ?case using parser_progress(1)[of tokens current x y] by auto
next
  case 7
  then show ?case by simp
next
  case (8 tokens expr current b ba bb bc x y)
  then show ?case
    using parser_progress(1)[of tokens current x y] isAtEnd_False[of tokens current] by auto
qed

declare atom.simps [simp del] expression.simps [simp del] application.simps [simp del]
  application_loop.simps [simp del]

definition parse :: "token list \<Rightarrow> error + node" where
  \<comment> \<open>A \<open>Parser\<close> is constructed with \<open>current = 0\<close>; \<open>parse\<close> returns the tree only.\<close>
  "parse tokens =
     (case expression tokens 0 of
        Inl e \<Rightarrow> Inl e
      | Inr (node, current) \<Rightarrow> Inr node)"

section \<open>interpreter.ts\<close>

fun isFreeIn :: "jstring \<Rightarrow> node \<Rightarrow> bool" where
  "isFreeIn name (Variable n) = (n = name)"
| "isFreeIn name (Abstraction param body) = (param \<noteq> name \<and> isFreeIn name body)"
| "isFreeIn name (Application left right) = (isFreeIn name left \<or> isFreeIn name right)"

text \<open>
  The loop of \<open>freshVarName\<close>: \<open>while (isFreeIn(newName, node)) newName += "'"\<close>.
  It ends because a name that is free in \<open>node\<close> is no longer than the longest name
  in \<open>node\<close>, and every round makes the candidate longer.
\<close>

fun longest_name :: "node \<Rightarrow> nat" where
  "longest_name (Variable n) = length n"
| "longest_name (Abstraction param body) = longest_name body"
| "longest_name (Application left right) = max (longest_name left) (longest_name right)"

lemma isFreeIn_length: "isFreeIn name node \<Longrightarrow> length name \<le> longest_name node"
  by (induction node) auto

function freshVarName_loop :: "jstring \<Rightarrow> node \<Rightarrow> jstring" where
  "freshVarName_loop newName node =
     (if isFreeIn newName node then freshVarName_loop (newName @ [0x27]) node else newName)"
  by pat_completeness auto
termination freshVarName_loop
  by (relation "measure (\<lambda>(newName, node). Suc (longest_name node) - length newName)")
     (auto dest: isFreeIn_length)

declare freshVarName_loop.simps [simp del]

definition freshVarName :: "jstring \<Rightarrow> node \<Rightarrow> jstring" where
  "freshVarName usedName node = freshVarName_loop (usedName @ [0x27]) node"

text \<open>
  \<open>substitute\<close> calls itself on its own result (\<open>newBody\<close>), so its termination needs
  the fact that replacing a variable by a variable keeps the size of a tree.
\<close>

function substitute :: "node \<Rightarrow> jstring \<Rightarrow> node \<Rightarrow> node" where
  "substitute (Variable n) varName replacement =
     (if n = varName then replacement else Variable n)"
| "substitute (Abstraction param body) varName replacement =
     (if param = varName then Abstraction param body
      else if isFreeIn param replacement \<and> isFreeIn varName body then
        (let freshName = freshVarName param replacement;
             newBody = substitute body param (Variable freshName)
         in Abstraction freshName (substitute newBody varName replacement))
      else Abstraction param (substitute body varName replacement))"
| "substitute (Application left right) varName replacement =
     Application (substitute left varName replacement) (substitute right varName replacement)"
  by pat_completeness auto

lemma substitute_variable_size:
  "substitute_dom (node, varName, replacement) \<Longrightarrow>
   replacement = Variable v \<Longrightarrow> size (substitute node varName replacement) = size node"
  by (induction node varName replacement arbitrary: v rule: substitute.pinduct)
     (auto simp: substitute.psimps Let_def)

termination substitute
  by (relation "measure (\<lambda>(node, varName, replacement). size node)")
     (auto simp: substitute_variable_size)

definition betaReduce :: "jstring \<Rightarrow> node \<Rightarrow> node \<Rightarrow> node" where
  \<comment> \<open>\<open>func: Abstraction\<close> is passed as its fields \<open>param\<close> and \<open>body\<close>.\<close>
  "betaReduce param body arg = substitute body param arg"

fun step :: "node \<Rightarrow> node option" where
  "step (Variable n) = None"
| "step (Abstraction param body) =
     (case step body of
        None \<Rightarrow> None
      | Some reducedBody \<Rightarrow> Some (Abstraction param reducedBody))"
| "step (Application left right) =
     (case step left of
        Some reducedLeft \<Rightarrow> Some (Application reducedLeft right)
      | None \<Rightarrow>
         (case step right of
            Some reducedRight \<Rightarrow> Some (Application left reducedRight)
          | None \<Rightarrow>
             (case left of
                Abstraction param body \<Rightarrow> Some (betaReduce param body right)
              | _ \<Rightarrow> None)))"

text \<open>
  \<open>evaluate\<close>: \<open>maxSteps\<close> and \<open>steps\<close> are numbers of the language. The model takes the
  step bound to be an integer and counts with integers, as the numbers do up to \<open>2\<^sup>5\<^sup>3\<close>;
  fractions, NaN and the infinities are not modelled. A bound of zero or less lets the
  loop run no round.
\<close>

function evaluate_loop :: "node \<Rightarrow> int \<Rightarrow> int \<Rightarrow> error + node" where
  "evaluate_loop current steps maxSteps =
     (if steps < maxSteps then
        (case step current of
           None \<Rightarrow> Inr current
         | Some result \<Rightarrow> evaluate_loop result (steps + 1) maxSteps)
      else Inl (NonTermination maxSteps))"
  by pat_completeness auto
termination evaluate_loop
  by (relation "measure (\<lambda>(current, steps, maxSteps). nat (maxSteps - steps))") auto

declare evaluate_loop.simps [simp del]

definition evaluate :: "node \<Rightarrow> int \<Rightarrow> error + node" where
  "evaluate node maxSteps = evaluate_loop node 0 maxSteps"

fun toString :: "node \<Rightarrow> jstring" where
  "toString (Variable n) = n"
| "toString (Abstraction param body) =
     js ''('' @ [0x03BB] @ param @ js ''.'' @ toString body @ js '')''"
| "toString (Application left right) =
     (let l = toString left;
          r = toString right;
          leftStr = (case left of Application _ _ \<Rightarrow> l | _ \<Rightarrow> l);
          rightStr = (case right of Variable _ \<Rightarrow> r | _ \<Rightarrow> js ''('' @ r @ js '')'')
      in leftStr @ js '' '' @ rightStr)"

section \<open>index.ts\<close>

text \<open>
  The class \<open>LambdaCalculus\<close>; its methods \<open>parse\<close> and \<open>evaluate\<close> take the input text
  and are prefixed with \<open>lc_\<close>. The result of \<open>evaluateWithSteps\<close> is the object
  \<open>{ result, steps }\<close>, where each entry \<open>{ expression }\<close> of \<open>steps\<close> is its one string.
  \<open>evaluateWithSteps_loop\<close> is the \<open>while\<close> loop, returning the three variables it
  changes.
\<close>

definition lc_parse :: "jstring \<Rightarrow> error + node" where
  "lc_parse input =
     (case tokenize (trim input) of
        Inl e \<Rightarrow> Inl e
      | Inr tokens \<Rightarrow> parse tokens)"

definition lc_evaluate :: "jstring \<Rightarrow> int \<Rightarrow> error + node" where
  "lc_evaluate input maxSteps =
     (case lc_parse input of
        Inl e \<Rightarrow> Inl e
      | Inr ast \<Rightarrow> evaluate ast maxSteps)"

definition formatExpression :: "node \<Rightarrow> jstring" where
  "formatExpression node = toString node"

record evaluation =
  ev_result :: node
  ev_steps :: "jstring list"

function evaluateWithSteps_loop ::
  "node \<Rightarrow> int \<Rightarrow> int \<Rightarrow> jstring list \<Rightarrow> node \<times> int \<times> jstring list" where
  "evaluateWithSteps_loop current stepCount maxSteps steps =
     (if stepCount < maxSteps then
        (case step current of
           None \<Rightarrow> (current, stepCount, steps)
         | Some result \<Rightarrow>
             evaluateWithSteps_loop result (stepCount + 1) maxSteps
               (steps @ [formatExpression result]))
      else (current, stepCount, steps))"
  by pat_completeness auto
termination evaluateWithSteps_loop
  by (relation "measure (\<lambda>(current, stepCount, maxSteps, steps). nat (maxSteps - stepCount))") auto

declare evaluateWithSteps_loop.simps [simp del]

definition evaluateWithSteps :: "jstring \<Rightarrow> int \<Rightarrow> error + evaluation" where
  "evaluateWithSteps input maxSteps =
     (case lc_parse input of
        Inl e \<Rightarrow> Inl e
      | Inr ast \<Rightarrow>
          (let steps = [formatExpression ast];
               (current, stepCount, steps) = evaluateWithSteps_loop ast 0 maxSteps steps
           in if stepCount \<ge> maxSteps then Inl (NonTermination maxSteps)
              else Inr \<lparr>ev_result = current, ev_steps = steps\<rparr>))"

section \<open>Notions used in the properties\<close>








text \<open>
  Modelled from the spec: \<open>alpha_rename\<close>, "any consistent renaming of bound variables"
  (the repository has no such function). \<open>alpha_eq env t t'\<close> holds when \<open>t'\<close> is \<open>t\<close>
  with bound variables renamed; \<open>env\<close> pairs the binders passed on the way down, the
  innermost first, and a free variable keeps its name.
\<close>

fun var_eq :: "(jstring \<times> jstring) list \<Rightarrow> jstring \<Rightarrow> jstring \<Rightarrow> bool" where
  "var_eq [] a b = (a = b)"
| "var_eq ((x, y) # env) a b = (if a = x \<or> b = y then a = x \<and> b = y else var_eq env a b)"

fun alpha_eq :: "(jstring \<times> jstring) list \<Rightarrow> node \<Rightarrow> node \<Rightarrow> bool" where
  "alpha_eq env (Variable a) (Variable b) = var_eq env a b"
| "alpha_eq env (Abstraction x s) (Abstraction y t) = alpha_eq ((x, y) # env) s t"
| "alpha_eq env (Application s1 s2) (Application t1 t2) =
     (alpha_eq env s1 t1 \<and> alpha_eq env s2 t2)"
| "alpha_eq env _ _ = False"


text \<open>
  A term whose evaluation ends in a substitution that captures, as source text and as a
  tree, and the same tree with one bound variable renamed.
\<close>

definition capture_ast :: node where
  "capture_ast =
     Application
       (Abstraction (js ''c'')
          (Application
             (Abstraction (js ''a'') (Abstraction (js ''y'')
                (Application (Variable (js ''a'')) (Variable (js ''y'')))))
             (Abstraction (js ''q'')
                (Application
                   (Application (Variable (js ''c''))
                      (Abstraction (js ''x'') (Abstraction (js ''y'')
                         (Application (Variable (js ''x'')) (Variable (js ''q''))))))
                   (Variable (js ''y''))))))
       (Abstraction (js ''i'') (Variable (js ''i'')))"

definition capture_ast_renamed :: node where
  "capture_ast_renamed =
     Application
       (Abstraction (js ''c'')
          (Application
             (Abstraction (js ''a'') (Abstraction (js ''y'')
                (Application (Variable (js ''a'')) (Variable (js ''y'')))))
             (Abstraction (js ''q'')
                (Application
                   (Application (Variable (js ''c''))
                      (Abstraction (js ''x'') (Abstraction (js ''w'')
                         (Application (Variable (js ''x'')) (Variable (js ''q''))))))
                   (Variable (js ''y''))))))
       (Abstraction (js ''i'') (Variable (js ''i'')))"

definition capture_example :: jstring where
  "capture_example =
     js ''('' @ backslash @ js ''c.('' @ backslash @ js ''a.'' @ backslash @ js ''y.a y) ('' @
     backslash @ js ''q.c ('' @ backslash @ js ''x.'' @ backslash @ js ''y.x q) y)) ('' @
     backslash @ js ''i.i)''"

section \<open>The fresh name\<close>

lemma freshVarName_loop_not_free: "\<not> isFreeIn (freshVarName_loop newName node) node"
  by (induction newName node rule: freshVarName_loop.induct)
     (subst freshVarName_loop.simps, simp)

lemma freshVarName_loop_primes:
  "\<exists>k. freshVarName_loop newName node = newName @ replicate k 0x27 \<and>
       (\<forall>j<k. isFreeIn (newName @ replicate j 0x27) node)"
proof (induction newName node rule: freshVarName_loop.induct)
  case (1 newName node)
  show ?case
  proof (cases "isFreeIn newName node")
    case False
    then have "freshVarName_loop newName node = newName @ replicate 0 0x27"
      by (subst freshVarName_loop.simps) simp
    then show ?thesis by (metis not_less_zero)
  next
    case True
    from 1[OF True] obtain k where
      k: "freshVarName_loop (newName @ [0x27]) node = (newName @ [0x27]) @ replicate k 0x27"
         "\<forall>j<k. isFreeIn ((newName @ [0x27]) @ replicate j 0x27) node" by blast
    have "freshVarName_loop newName node = newName @ replicate (Suc k) 0x27"
      using True k(1) by (subst freshVarName_loop.simps) (simp add: replicate_app_Cons_same)
    moreover have "\<forall>j<Suc k. isFreeIn (newName @ replicate j 0x27) node"
    proof (intro allI impI)
      fix j assume "j < Suc k"
      show "isFreeIn (newName @ replicate j 0x27) node"
      proof (cases j)
        case 0 then show ?thesis using True by simp
      next
        case (Suc i)
        then have "i < k" using \<open>j < Suc k\<close> by simp
        then show ?thesis using k(2) Suc by (simp add: replicate_app_Cons_same)
      qed
    qed
    ultimately show ?thesis by blast
  qed
qed

text \<open>
  Claim C7. For every base name and every node, \<open>freshVarName\<close> returns (the function is
  total, so the loop ends) the base name followed by one or more prime marks, a name that
  is not free in the node; it is the shortest such name, every shorter candidate being
  free in the node.
\<close>

theorem freshVarName_fresh:
  "\<exists>k. freshVarName base node = base @ replicate (Suc k) 0x27 \<and>
       \<not> isFreeIn (freshVarName base node) node \<and>
       (\<forall>j<k. isFreeIn (base @ replicate (Suc j) 0x27) node)"
proof -
  obtain k where k: "freshVarName_loop (base @ [0x27]) node = (base @ [0x27]) @ replicate k 0x27"
    "\<forall>j<k. isFreeIn ((base @ [0x27]) @ replicate j 0x27) node"
    using freshVarName_loop_primes by blast
  have "freshVarName base node = base @ replicate (Suc k) 0x27"
    using k(1) by (simp add: freshVarName_def replicate_app_Cons_same)
  moreover have "\<not> isFreeIn (freshVarName base node) node"
    by (simp add: freshVarName_def freshVarName_loop_not_free)
  moreover have "\<forall>j<k. isFreeIn (base @ replicate (Suc j) 0x27) node"
    using k(2) by (simp add: replicate_app_Cons_same)
  ultimately show ?thesis by blast
qed

theorem freshVarName_fresh_witness:
  "freshVarName (js ''y'') (Variable (js ''y'' @ [0x27])) = js ''y'' @ [0x27, 0x27] \<and>
   \<not> isFreeIn (freshVarName (js ''y'') (Variable (js ''y'' @ [0x27]))) (Variable (js ''y'' @ [0x27])) \<and>
   isFreeIn (js ''y'' @ [0x27]) (Variable (js ''y'' @ [0x27]))"
  using freshVarName_fresh [of "js ''y''" "Variable (js ''y'' @ [0x27])"]
  by (simp add: js_def freshVarName_def freshVarName_loop.simps)

section \<open>Substitution\<close>

lemma isFreeIn_substitute:
  "isFreeIn x (substitute node varName replacement) \<Longrightarrow>
   (isFreeIn x node \<and> x \<noteq> varName) \<or> isFreeIn x replacement"
  by (induction node varName replacement rule: substitute.induct)
     (auto simp: Let_def split: if_splits)

text \<open>
  Claim C1. Substitution is meant to avoid capture, but the fresh name is chosen against
  the replacement only. Substituting \<open>y\<close> for \<open>x\<close> in \<open>\<lambda>y. x y'\<close> renames the
  parameter \<open>y\<close> to \<open>y'\<close>, and the \<open>y'\<close> that was free in the node is bound in the
  result \<open>\<lambda>y'. y y'\<close>.
\<close>

theorem substitute_captures_free_variable:
  "isFreeIn (js ''y'' @ [0x27])
     (Abstraction (js ''y'') (Application (Variable (js ''x'')) (Variable (js ''y'' @ [0x27])))) \<and>
   substitute (Abstraction (js ''y'') (Application (Variable (js ''x'')) (Variable (js ''y'' @ [0x27]))))
     (js ''x'') (Variable (js ''y''))
   = Abstraction (js ''y'' @ [0x27]) (Application (Variable (js ''y'')) (Variable (js ''y'' @ [0x27]))) \<and>
   \<not> isFreeIn (js ''y'' @ [0x27])
     (substitute (Abstraction (js ''y'') (Application (Variable (js ''x'')) (Variable (js ''y'' @ [0x27]))))
        (js ''x'') (Variable (js ''y'')))"
  by (simp add: js_def freshVarName_def freshVarName_loop.simps)

section \<open>One step\<close>

text \<open>
  Claim C2, as the spec states it, fails: with an abstraction on the left and a redex in
  the right operand, \<open>step\<close> reduces inside the right operand and leaves the outer redex.
  Here \<open>step ((\<lambda>x. x) ((\<lambda>y. y) z)) = (\<lambda>x. x) z\<close>, not \<open>(\<lambda>y. y) z\<close>.
\<close>

theorem step_not_outermost_first:
  "step (Application (Abstraction (js ''x'') (Variable (js ''x'')))
          (Application (Abstraction (js ''y'') (Variable (js ''y''))) (Variable (js ''z''))))
     = Some (Application (Abstraction (js ''x'') (Variable (js ''x''))) (Variable (js ''z''))) \<and>
   step (Application (Abstraction (js ''x'') (Variable (js ''x'')))
          (Application (Abstraction (js ''y'') (Variable (js ''y''))) (Variable (js ''z''))))
     \<noteq> Some (substitute (Variable (js ''x'')) (js ''x'')
          (Application (Abstraction (js ''y'') (Variable (js ''y''))) (Variable (js ''z''))))"
  by (simp add: betaReduce_def js_def)

text \<open>
  Claim C2, amended. On an application whose left operand is an abstraction, \<open>step\<close>
  first reduces inside the abstraction's body, else inside the right operand, and performs
  the outer beta reduction only when neither has a redex: the right operand it substitutes
  is then in normal form.
\<close>

theorem step_beta_only_after_operands:
  "step (Application (Abstraction param body) right) =
     (case step body of
        Some reducedBody \<Rightarrow> Some (Application (Abstraction param reducedBody) right)
      | None \<Rightarrow>
         (case step right of
            Some reducedRight \<Rightarrow> Some (Application (Abstraction param body) reducedRight)
          | None \<Rightarrow> Some (substitute body param right)))"
  by (simp add: betaReduce_def split: option.splits)

theorem step_beta_only_after_operands_witness:
  "step (Application (Abstraction (js ''x'') (Variable (js ''x''))) (Variable (js ''z'')))
     = Some (Variable (js ''z''))"
  using step_beta_only_after_operands [of "js ''x''" "Variable (js ''x'')" "Variable (js ''z'')"]
  by simp

section \<open>Evaluation\<close>

lemma evaluate_loop_exit:
  "\<not> steps < maxSteps \<Longrightarrow> evaluate_loop current steps maxSteps = Inl (NonTermination maxSteps)"
  by (subst evaluate_loop.simps) simp

lemma evaluate_loop_normal:
  "steps < maxSteps \<Longrightarrow> step current = None \<Longrightarrow>
   evaluate_loop current steps maxSteps = Inr current"
  by (subst evaluate_loop.simps) simp

lemma evaluate_loop_reduce:
  "steps < maxSteps \<Longrightarrow> step current = Some result \<Longrightarrow>
   evaluate_loop current steps maxSteps = evaluate_loop result (steps + 1) maxSteps"
  by (subst evaluate_loop.simps) simp




section \<open>Free variables under reduction\<close>

lemma step_free:
  "step t = Some t' \<Longrightarrow> isFreeIn x t' \<Longrightarrow> isFreeIn x t"
proof (induction t arbitrary: t')
  case (Variable n)
  then show ?case by simp
next
  case (Abstraction param body)
  then show ?case by (auto split: option.splits)
next
  case (Application left right)
  show ?case
  proof (cases "step left")
    case (Some reducedLeft)
    then show ?thesis using Application by auto
  next
    case None
    note left_None = this
    show ?thesis
    proof (cases "step right")
      case (Some reducedRight)
      then show ?thesis using Application left_None by auto
    next
      case None
      show ?thesis
      proof (cases left)
        case (Abstraction param body)
        then have "t' = substitute body param right"
          using Application.prems(1) left_None None by (simp add: betaReduce_def)
        then have "(isFreeIn x body \<and> x \<noteq> param) \<or> isFreeIn x right"
          using Application.prems(2) isFreeIn_substitute by blast
        then show ?thesis using Abstraction by auto
      qed (use Application.prems(1) left_None None in simp_all)
    qed
  qed
qed

lemma evaluate_loop_free:
  "evaluate_loop current steps maxSteps = Inr r \<Longrightarrow> isFreeIn x r \<Longrightarrow> isFreeIn x current"
proof (induction current steps maxSteps rule: evaluate_loop.induct)
  case (1 current steps maxSteps)
  have lt: "steps < maxSteps"
    using "1.prems"(1) evaluate_loop_exit[of steps maxSteps current] by auto
  show ?case
  proof (cases "step current")
    case None
    then have "r = current" using "1.prems"(1) lt by (simp add: evaluate_loop_normal)
    then show ?thesis using "1.prems"(2) by simp
  next
    case (Some result)
    then have "evaluate_loop result (steps + 1) maxSteps = Inr r" using "1.prems"(1) lt
      by (simp add: evaluate_loop_reduce)
    from "1.IH"[OF lt Some this "1.prems"(2)] have "isFreeIn x result" .
    then show ?thesis using Some step_free by blast
  qed
qed

text \<open>
  Claim C10. If \<open>step t\<close> returns a term, every name free in that term is free in \<open>t\<close>;
  and so every name free in a term that \<open>evaluate\<close> returns is free in its input.
\<close>

theorem step_no_new_free_variable:
  "(step t = Some t' \<longrightarrow> isFreeIn x t' \<longrightarrow> isFreeIn x t) \<and>
   (evaluate t maxSteps = Inr r \<longrightarrow> isFreeIn x r \<longrightarrow> isFreeIn x t)"
  using step_free evaluate_loop_free by (auto simp: evaluate_def)

theorem step_no_new_free_variable_witness:
  "step (Application (Abstraction (js ''x'') (Variable (js ''x''))) (Variable (js ''z'')))
     = Some (Variable (js ''z'')) \<and>
   evaluate (Application (Abstraction (js ''x'') (Variable (js ''x''))) (Variable (js ''z''))) 5
     = Inr (Variable (js ''z'')) \<and>
   isFreeIn (js ''z'') (Variable (js ''z'')) \<and>
   isFreeIn (js ''z'')
     (Application (Abstraction (js ''x'') (Variable (js ''x''))) (Variable (js ''z'')))"
  using step_no_new_free_variable
    [of "Application (Abstraction (js ''x'') (Variable (js ''x''))) (Variable (js ''z''))"
        "Variable (js ''z'')" "js ''z''" 5 "Variable (js ''z'')"]
  by (simp add: evaluate_def evaluate_loop.simps betaReduce_def)


section \<open>The trace of evaluateWithSteps\<close>

lemma evaluateWithSteps_loop_exit:
  "\<not> stepCount < maxSteps \<Longrightarrow>
   evaluateWithSteps_loop current stepCount maxSteps steps = (current, stepCount, steps)"
  by (subst evaluateWithSteps_loop.simps) simp






text \<open>
  Claim C9. With a step bound of zero \<open>evaluate\<close> fails with the step-bound error for
  every term, a term in normal form included, and no call with bound zero returns a
  result; \<open>evaluateWithSteps\<close> fails likewise, its loop having recorded the initial form
  only.
\<close>

theorem zero_bound_never_returns:
  "evaluate t 0 = Inl (NonTermination 0) \<and>
   (\<forall>r. lc_evaluate input 0 \<noteq> Inr r) \<and>
   (\<forall>r. evaluateWithSteps input 0 \<noteq> Inr r) \<and>
   (lc_parse input = Inr t \<longrightarrow>
      evaluateWithSteps_loop t 0 0 [formatExpression t] = (t, 0, [formatExpression t]) \<and>
      evaluateWithSteps input 0 = Inl (NonTermination 0))"
  by (auto simp: evaluate_def evaluate_loop_exit evaluateWithSteps_loop_exit lc_evaluate_def
        evaluateWithSteps_def split: sum.splits)

theorem zero_bound_never_returns_witness:
  "step (Variable (js ''z'')) = None \<and>
   lc_parse (js ''z'') = Inr (Variable (js ''z'')) \<and>
   evaluate (Variable (js ''z'')) 0 = Inl (NonTermination 0) \<and>
   evaluateWithSteps_loop (Variable (js ''z'')) 0 0 [formatExpression (Variable (js ''z''))]
     = (Variable (js ''z''), 0, [js ''z'']) \<and>
   evaluateWithSteps (js ''z'') 0 = Inl (NonTermination 0)"
proof -
  have p: "lc_parse (js ''z'') = Inr (Variable (js ''z''))" by code_simp
  with zero_bound_never_returns [of "Variable (js ''z'')" "js ''z''"]
  show ?thesis by (simp add: formatExpression_def)
qed

section \<open>Rendering\<close>

text \<open>
  Claim C8. The text \<open>\x. x\<close> (written with the backslash) parses and renders as
  \<open>(\<lambda>x.x)\<close>, and \<open>x y z\<close> parses and renders as \<open>x y z\<close>. In general an application
  renders as its left operand, a space and its right operand, the right operand in
  parentheses unless it is a variable; an abstraction renders in parentheses.
\<close>

theorem toString_parenthesization:
  "map_sum id toString (lc_parse (backslash @ js ''x.x'')) = Inr (js ''('' @ [0x03BB] @ js ''x.x)'') \<and>
   map_sum id toString (lc_parse (js ''x y z'')) = Inr (js ''x y z'') \<and>
   toString (Application left right) =
     toString left @ js '' '' @
       (case right of Variable n \<Rightarrow> n | _ \<Rightarrow> js ''('' @ toString right @ js '')'') \<and>
   toString (Abstraction param body) = js ''('' @ [0x03BB] @ param @ js ''.'' @ toString body @ js '')''"
proof -
  have "map_sum id toString (lc_parse (backslash @ js ''x.x'')) = Inr (js ''('' @ [0x03BB] @ js ''x.x)'')"
    by code_simp
  moreover have "map_sum id toString (lc_parse (js ''x y z'')) = Inr (js ''x y z'')"
    by code_simp
  moreover have "toString (Application left right) =
     toString left @ js '' '' @
       (case right of Variable n \<Rightarrow> n | _ \<Rightarrow> js ''('' @ toString right @ js '')'')"
    by (cases right; cases left) (simp_all add: Let_def)
  ultimately show ?thesis by simp
qed

theorem toString_parenthesization_witness:
  "toString (Application (Variable (js ''x'')) (Application (Variable (js ''y'')) (Variable (js ''z''))))
     = js ''x (y z)''"
  using toString_parenthesization
    [of "Variable (js ''x'')" "Application (Variable (js ''y'')) (Variable (js ''z''))"]
  by (simp add: js_def)

section \<open>What the parser consumes\<close>














text \<open>Every sequence the lexer returns ends with the end-of-input token.\<close>

lemma tokenize_loop_ends_with_EOF:
  "tokenize_loop input position tokens = Inr result \<Longrightarrow>
   result \<noteq> [] \<and> tok_type (last result) = TokEOF"
proof (induction input position tokens rule: tokenize_loop.induct)
  case (1 input position tokens)
  show ?case
  proof (cases "nextToken input position")
    case (Inl e)
    then show ?thesis using "1.prems" by (subst (asm) tokenize_loop.simps) simp
  next
    case (Inr p)
    obtain token position' where p: "p = (token, position')" by (cases p)
    show ?thesis
    proof (cases "tok_type token = TokEOF")
      case True
      then have "result = tokens @ [token]"
        using "1.prems" Inr p by (subst (asm) tokenize_loop.simps) simp
      then show ?thesis using True by simp
    next
      case False
      then have "tokenize_loop input position' (tokens @ [token]) = Inr result"
        using "1.prems" Inr p by (subst (asm) tokenize_loop.simps) simp
      from "1.IH"[OF Inr p[symmetric] refl False this] show ?thesis .
    qed
  qed
qed

lemma tokenize_has_EOF:
  "tokenize input = Inr tokens \<Longrightarrow> TokEOF \<in> set (map tok_type tokens)"
proof -
  assume "tokenize input = Inr tokens"
  then have "tokens \<noteq> [] \<and> tok_type (last tokens) = TokEOF"
    unfolding tokenize_def by (rule tokenize_loop_ends_with_EOF)
  then show ?thesis by (metis image_eqI last_in_set list.set_map)
qed


section \<open>Renaming bound variables\<close>






section \<open>The capture, reached from source text\<close>

text \<open>
  The source text \<open>capture_example\<close>, which is
  \<open>(\<lambda>c. (\<lambda>a. \<lambda>y. a y) (\<lambda>q. c (\<lambda>x. \<lambda>y. x q) y)) (\<lambda>i. i)\<close> with each \<open>\<lambda>\<close> written as
  a backslash, parses to \<open>capture_ast\<close> and evaluates to \<open>\<lambda>y'. \<lambda>y'. y y'\<close>: the last step is
  the substitution of \<open>y\<close> for \<open>x\<close> in \<open>\<lambda>y. x y'\<close>, and the \<open>y'\<close> that referred to the outer
  binder is captured by the inner one. With the inner \<open>y\<close> of the input renamed to
  \<open>w\<close> the result is \<open>\<lambda>y'. \<lambda>w. y y'\<close>, so the results of two inputs that differ in a bound
  name only need not agree even up to bound names.
\<close>

lemma capture_example_parses: "lc_parse capture_example = Inr capture_ast"
  by code_simp

lemma capture_reached_by_evaluate:
  "evaluate capture_ast 1000 =
     Inr (Abstraction (js ''y'' @ [0x27]) (Abstraction (js ''y'' @ [0x27])
            (Application (Variable (js ''y'')) (Variable (js ''y'' @ [0x27])))))"
  by code_simp

lemma alpha_variants_evaluate_apart:
  "alpha_eq [] capture_ast capture_ast_renamed \<and>
   evaluate capture_ast_renamed 1000 =
     Inr (Abstraction (js ''y'' @ [0x27]) (Abstraction (js ''w'')
            (Application (Variable (js ''y'')) (Variable (js ''y'' @ [0x27]))))) \<and>
   \<not> alpha_eq []
       (Abstraction (js ''y'' @ [0x27]) (Abstraction (js ''y'' @ [0x27])
            (Application (Variable (js ''y'')) (Variable (js ''y'' @ [0x27])))))
       (Abstraction (js ''y'' @ [0x27]) (Abstraction (js ''w'')
            (Application (Variable (js ''y'')) (Variable (js ''y'' @ [0x27])))))"
proof -
  have "alpha_eq [] capture_ast capture_ast_renamed" by code_simp
  moreover have "evaluate capture_ast_renamed 1000 =
     Inr (Abstraction (js ''y'' @ [0x27]) (Abstraction (js ''w'')
            (Application (Variable (js ''y'')) (Variable (js ''y'' @ [0x27])))))"
    by code_simp
  moreover have "\<not> alpha_eq []
       (Abstraction (js ''y'' @ [0x27]) (Abstraction (js ''y'' @ [0x27])
            (Application (Variable (js ''y'')) (Variable (js ''y'' @ [0x27])))))
       (Abstraction (js ''y'' @ [0x27]) (Abstraction (js ''w'')
            (Application (Variable (js ''y'')) (Variable (js ''y'' @ [0x27])))))"
    by code_simp
  ultimately show ?thesis by (intro conjI)
qed

end
